theory Spec2Isabelle
  imports Main
begin

section \<open>JavaScript strings and numbers\<close>

text \<open>
  A JavaScript string is a sequence of UTF-16 code units. The regular expressions of the
  program mention code units above 255 (the en dash, the em dash, Unicode white space), so a
  code unit is a natural number here and a string a list of them. \<open>js\<close> turns an ASCII
  literal into such a string; \<open>cu\<close> is the code unit of one ASCII character.

  A JavaScript number is a double. The numbers of this program hold integers (semitone
  counts, pitch classes, positions), so a number is an \<open>int\<close> here (a \<open>nat\<close> for a length or
  an index of a string, which stay far below \<open>2 ^ 53\<close>). The remainder \<open>%\<close> and the negation
  of a double are exact; the sum of two doubles is rounded to the nearest double, and that
  is written out (\<open>js_add\<close>), since a semitone count can be any integer a double holds.
\<close>

type_synonym jschar = nat
type_synonym jsstring = "nat list"

definition cu :: "char \<Rightarrow> jschar" where
  "cu c = of_char c"

definition js :: "string \<Rightarrow> jsstring" where
  "js s = map cu s"

text \<open>The remainder operator \<open>%\<close>: the result has the sign of the dividend.\<close>

definition js_rem :: "int \<Rightarrow> int \<Rightarrow> int" where
  "js_rem a b = sgn a * (\<bar>a\<bar> mod \<bar>b\<bar>)"

text \<open>
  Rounding an integer to the nearest double, ties to the even significand. A double has 53
  significant bits: among the integers of bit length \<open>n > 53\<close> the doubles are the multiples
  of \<open>2 ^ (n - 53)\<close>, and every integer of at most 53 bits is a double. (Integers of
  magnitude \<open>2 ^ 1024\<close> and more, which would round to infinity, are not reached: the sums
  of this program add at most 12 to a double.)
\<close>

fun bitLength :: "nat \<Rightarrow> nat" where
  "bitLength n = (if n = 0 then 0 else Suc (bitLength (n div 2)))"

declare bitLength.simps [simp del]

definition ulp :: "int \<Rightarrow> int" where
  "ulp x = 2 ^ (bitLength (nat \<bar>x\<bar>) - 53)"

definition roundDouble :: "int \<Rightarrow> int" where
  "roundDouble x =
     (let u = ulp x; q = x div u; r = x mod u
      in if 2 * r < u \<or> (2 * r = u \<and> even q) then q * u else (q + 1) * u)"

text \<open>The sum \<open>a + b\<close> of two numbers.\<close>

definition js_add :: "int \<Rightarrow> int \<Rightarrow> int" where
  "js_add a b = roundDouble (a + b)"

text \<open>\<open>s.indexOf(c)\<close> for a one-character needle: the first index, or nothing for -1.\<close>

primrec indexOf :: "jschar \<Rightarrow> jsstring \<Rightarrow> nat option" where
  "indexOf c [] = None"
| "indexOf c (x # xs) = (if x = c then Some 0 else map_option Suc (indexOf c xs))"

text \<open>
  The dot of a regular expression without the \<open>s\<close> flag matches every code unit but the four
  line terminators.
\<close>

definition isLineTerminator :: "jschar \<Rightarrow> bool" where
  "isLineTerminator c = (c = 0x0A \<or> c = 0x0D \<or> c = 0x2028 \<or> c = 0x2029)"

section \<open>Notes and keys (the tables shared by the three pages)\<close>

definition KEYS_MAJOR :: "jsstring list" where
  "KEYS_MAJOR = map js [''C'', ''C#'', ''Db'', ''D'', ''D#'', ''Eb'', ''E'', ''F'', ''F#'',
     ''Gb'', ''G'', ''G#'', ''Ab'', ''A'', ''A#'', ''Bb'', ''B'']"

definition KEYS_MINOR :: "jsstring list" where
  "KEYS_MINOR = map js [''Cm'', ''C#m'', ''Dbm'', ''Dm'', ''D#m'', ''Ebm'', ''Em'', ''Fm'',
     ''F#m'', ''Gbm'', ''Gm'', ''G#m'', ''Abm'', ''Am'', ''A#m'', ''Bbm'', ''Bm'']"

definition KEYS :: "jsstring list" where
  "KEYS = KEYS_MAJOR @ KEYS_MINOR"

definition NOTE_MAP :: "jsstring \<rightharpoonup> int" where
  "NOTE_MAP = map_of [(js ''C'', 0), (js ''C#'', 1), (js ''Db'', 1), (js ''D'', 2),
     (js ''D#'', 3), (js ''Eb'', 3), (js ''E'', 4), (js ''F'', 5), (js ''F#'', 6),
     (js ''Gb'', 6), (js ''G'', 7), (js ''G#'', 8), (js ''Ab'', 8), (js ''A'', 9),
     (js ''A#'', 10), (js ''Bb'', 10), (js ''B'', 11)]"

definition NOTE_NAMES_SHARP :: "jsstring list" where
  "NOTE_NAMES_SHARP = map js [''C'', ''C#'', ''D'', ''D#'', ''E'', ''F'', ''F#'', ''G'',
     ''G#'', ''A'', ''A#'', ''B'']"

definition NOTE_NAMES_FLAT :: "jsstring list" where
  "NOTE_NAMES_FLAT = map js [''C'', ''Db'', ''D'', ''Eb'', ''E'', ''F'', ''Gb'', ''G'',
     ''Ab'', ''A'', ''Bb'', ''B'']"

definition FLAT_KEYS :: "jsstring list" where
  "FLAT_KEYS = map js [''F'', ''Bb'', ''Eb'', ''Ab'', ''Db'', ''Gb'', ''Cb'',
     ''Dm'', ''Gm'', ''Cm'', ''Fm'', ''Bbm'', ''Ebm'', ''Abm'', ''Dbm'', ''Gbm'', ''Cbm'']"

text \<open>The character classes \<open>[A-G]\<close> and \<open>[#b]\<close>.\<close>

definition isRoot :: "jschar \<Rightarrow> bool" where
  "isRoot c = (cu CHR ''A'' \<le> c \<and> c \<le> cu CHR ''G'')"

definition isAccidental :: "jschar \<Rightarrow> bool" where
  "isAccidental c = (c = cu CHR ''#'' \<or> c = cu CHR ''b'')"

text \<open>
  \<open>note.match(/^([A-G])([#b]?)$/)\<close>: the root and the modifier (empty or one character), or
  no match.
\<close>

fun noteRegex :: "jsstring \<Rightarrow> (jschar \<times> jsstring) option" where
  "noteRegex [r] = (if isRoot r then Some (r, []) else None)"
| "noteRegex [r, m] = (if isRoot r \<and> isAccidental m then Some (r, [m]) else None)"
| "noteRegex _ = None"

text \<open>
  \<open>chord.match(/^([A-G])([#b]?)(.*)$/)\<close>: root, modifier and suffix. The modifier is greedy;
  the dot does not cross a line terminator and \<open>$\<close> is the end of the string, so a chord
  with a line terminator after its root does not match.
\<close>

fun chordRegex :: "jsstring \<Rightarrow> (jschar \<times> jsstring \<times> jsstring) option" where
  "chordRegex [] = None"
| "chordRegex (r # rest) =
     (if isRoot r \<and> \<not> (\<exists>c \<in> set rest. isLineTerminator c) then
        (case rest of
           m # suffix \<Rightarrow> if isAccidental m then Some (r, [m], suffix) else Some (r, [], rest)
         | [] \<Rightarrow> Some (r, [], []))
      else None)"

text \<open>\<open>NOTE_MAP[root + modifier] ?? NOTE_MAP[root] ?? 0\<close>\<close>

definition noteValue :: "jschar \<Rightarrow> jsstring \<Rightarrow> int" where
  "noteValue root modifier =
     (case NOTE_MAP (root # modifier) of
        Some v \<Rightarrow> v
      | None \<Rightarrow> (case NOTE_MAP [root] of Some v \<Rightarrow> v | None \<Rightarrow> 0))"

text \<open>\<open>((v % 12) + 12) % 12\<close>, the double modulo of the three pages.\<close>

definition wrap12 :: "int \<Rightarrow> int" where
  "wrap12 v = js_rem (js_add (js_rem v 12) 12) 12"

text \<open>
  \<open>noteNames[newValue]\<close>: the index is a pitch class 0..11 at every call (lemma
  \<open>wrap12_range\<close>), inside the twelve names.
\<close>

definition noteNames :: "bool \<Rightarrow> jsstring list" where
  "noteNames useFlats = (if useFlats then NOTE_NAMES_FLAT else NOTE_NAMES_SHARP)"

section \<open>Transposition (song-viewer.tsx, songs.tsx, reset-password.tsx)\<close>

text \<open>\<open>transposeNote\<close> is the same text in the three files.\<close>

definition transposeNote :: "jsstring \<Rightarrow> int \<Rightarrow> bool \<Rightarrow> jsstring" where
  "transposeNote note semitones useFlats =
     (case noteRegex note of
        None \<Rightarrow> note
      | Some (root, modifier) \<Rightarrow>
          (let newValue = wrap12 (js_add (noteValue root modifier) semitones)
           in noteNames useFlats ! nat newValue))"

text \<open>song-viewer.tsx, \<open>transposeChord\<close>.\<close>

function transposeChord :: "jsstring \<Rightarrow> int \<Rightarrow> bool \<Rightarrow> jsstring" where
  "transposeChord chord semitones useFlats =
     (case indexOf (cu CHR ''/'') chord of
        Some slashIndex \<Rightarrow>
          (let mainPart = take slashIndex chord;
               bassPart = drop (slashIndex + 1) chord;
               mainTransposed = transposeChord mainPart semitones useFlats;
               bassTransposed = transposeNote bassPart semitones useFlats
           in mainTransposed @ js ''/'' @ bassTransposed)
      | None \<Rightarrow>
          (case chordRegex chord of
             None \<Rightarrow> chord
           | Some (root, modifier, suffix) \<Rightarrow>
               (let normalizedSemitones = wrap12 semitones;
                    newValue = wrap12 (js_add (noteValue root modifier) normalizedSemitones)
                in noteNames useFlats ! nat newValue @ suffix)))"
  by pat_completeness auto

lemma indexOf_less: "indexOf c s = Some i \<Longrightarrow> i < length s"
  by (induction s arbitrary: i) (auto split: if_splits)

termination transposeChord
  by (relation "measure (\<lambda>(chord, _, _). length chord)") (auto dest: indexOf_less)

text \<open>songs.tsx, \<open>transposeChordForSave\<close>: the semitones are not normalised first.\<close>

function transposeChordForSave :: "jsstring \<Rightarrow> int \<Rightarrow> bool \<Rightarrow> jsstring" where
  "transposeChordForSave chord semitones useFlats =
     (case indexOf (cu CHR ''/'') chord of
        Some slashIndex \<Rightarrow>
          (let mainPart = take slashIndex chord;
               bassPart = drop (slashIndex + 1) chord;
               mainTransposed = transposeChordForSave mainPart semitones useFlats;
               bassTransposed = transposeNote bassPart semitones useFlats
           in mainTransposed @ js ''/'' @ bassTransposed)
      | None \<Rightarrow>
          (case chordRegex chord of
             None \<Rightarrow> chord
           | Some (root, modifier, suffix) \<Rightarrow>
               (let newValue = wrap12 (js_add (noteValue root modifier) semitones)
                in noteNames useFlats ! nat newValue @ suffix)))"
  by pat_completeness auto

termination transposeChordForSave
  by (relation "measure (\<lambda>(chord, _, _). length chord)") (auto dest: indexOf_less)

text \<open>reset-password.tsx, \<open>transposeChord\<close> (the text of song-viewer.tsx).\<close>

function transposeChordService :: "jsstring \<Rightarrow> int \<Rightarrow> bool \<Rightarrow> jsstring" where
  "transposeChordService chord semitones useFlats =
     (case indexOf (cu CHR ''/'') chord of
        Some slashIndex \<Rightarrow>
          (let mainPart = take slashIndex chord;
               bassPart = drop (slashIndex + 1) chord;
               mainTransposed = transposeChordService mainPart semitones useFlats;
               bassTransposed = transposeNote bassPart semitones useFlats
           in mainTransposed @ js ''/'' @ bassTransposed)
      | None \<Rightarrow>
          (case chordRegex chord of
             None \<Rightarrow> chord
           | Some (root, modifier, suffix) \<Rightarrow>
               (let normalizedSemitones = wrap12 semitones;
                    newValue = wrap12 (js_add (noteValue root modifier) normalizedSemitones)
                in noteNames useFlats ! nat newValue @ suffix)))"
  by pat_completeness auto

termination transposeChordService
  by (relation "measure (\<lambda>(chord, _, _). length chord)") (auto dest: indexOf_less)

declare transposeChord.simps [simp del]
declare transposeChordForSave.simps [simp del]
declare transposeChordService.simps [simp del]

section \<open>Regular expressions\<close>

text \<open>
  The regular expressions the program only tests or matches as a whole are data here, and one
  matcher runs them the way the JavaScript engine does: by backtracking, the alternatives of
  \<open>|\<close> in their order, \<open>*\<close> and \<open>?\<close> greedy. \<open>pm r s\<close> lists, in that order of priority,
  what is left of \<open>s\<close> after each way \<open>r\<close> can match a prefix of it; an iteration of \<open>*\<close>
  that consumes nothing is dropped, as the engine drops it.
\<close>

datatype rexp =
    Sym "jschar \<Rightarrow> bool"
  | Eps
  | Alt rexp rexp
  | Seq rexp rexp
  | Star rexp

function pm :: "rexp \<Rightarrow> jsstring \<Rightarrow> jsstring list" where
  "pm (Sym P) s = (case s of [] \<Rightarrow> [] | c # t \<Rightarrow> if P c then [t] else [])"
| "pm Eps s = [s]"
| "pm (Alt r1 r2) s = pm r1 s @ pm r2 s"
| "pm (Seq r1 r2) s = concat (map (pm r2) (pm r1 s))"
| "pm (Star r) s =
     concat (map (pm (Star r)) (filter (\<lambda>t. length t < length s) (pm r s))) @ [s]"
  by pat_completeness auto

termination pm
  by (relation "inv_image (less_than <*lex*> less_than) (\<lambda>(r, s). (size r, length s))") auto

text \<open>\<open>/^r$/.test(s)\<close>: some way of matching \<open>r\<close> consumes all of \<open>s\<close>.\<close>

definition test_anchored :: "rexp \<Rightarrow> jsstring \<Rightarrow> bool" where
  "test_anchored r s = ([] \<in> set (pm r s))"


text \<open>A literal, \<open>r?\<close>, \<open>r+\<close>, and \<open>r1|r2|...\<close> of a non-empty list.\<close>

primrec lit :: "string \<Rightarrow> rexp" where
  "lit [] = Eps"
| "lit (c # cs) = Seq (Sym (\<lambda>x. x = cu c)) (lit cs)"

definition opt :: "rexp \<Rightarrow> rexp" where
  "opt r = Alt r Eps"

definition plus1 :: "rexp \<Rightarrow> rexp" where
  "plus1 r = Seq r (Star r)"

fun alts :: "rexp list \<Rightarrow> rexp" where
  "alts [r] = r"
| "alts (r # rs) = Alt r (alts rs)"
| "alts [] = Eps"

text \<open>
  \<open>\s\<close> in a regular expression and the characters \<open>trim\<close> removes: white space and the
  line terminators.
\<close>

definition isSpace :: "jschar \<Rightarrow> bool" where
  "isSpace c = (c \<in> {0x09, 0x0A, 0x0B, 0x0C, 0x0D, 0x20, 0xA0, 0x1680, 0x2028, 0x2029,
                      0x202F, 0x205F, 0x3000, 0xFEFF} \<or> (0x2000 \<le> c \<and> c \<le> 0x200A))"

definition trim :: "jsstring \<Rightarrow> jsstring" where
  "trim s = rev (dropWhile isSpace (rev (dropWhile isSpace s)))"

section \<open>The chord grammar (isChordToken)\<close>

text \<open>The class \<open>[0-9#b+\-\/]\<close> of a parenthesised alteration group.\<close>

definition isAlteration :: "jschar \<Rightarrow> bool" where
  "isAlteration c = ((cu CHR ''0'' \<le> c \<and> c \<le> cu CHR ''9'') \<or> c = cu CHR ''#'' \<or>
     c = cu CHR ''b'' \<or> c = cu CHR ''+'' \<or> c = cu CHR ''-'' \<or> c = cu CHR ''/'')"

text \<open>
  \<open>(?:m|M|maj|min|dim|aug|sus|add|7M|7m|7|9|11|13|6|5|4|2|\+|\-|.|.|.|\([0-9#b+\-\/]+\))\<close>,
  where the three dots stand for the degree sign (code unit B0), the o with stroke (F8) and
  the masculine ordinal (BA).
\<close>

definition chordSuffixAlt :: rexp where
  "chordSuffixAlt = alts [lit ''m'', lit ''M'', lit ''maj'', lit ''min'', lit ''dim'',
     lit ''aug'', lit ''sus'', lit ''add'', lit ''7M'', lit ''7m'', lit ''7'', lit ''9'',
     lit ''11'', lit ''13'', lit ''6'', lit ''5'', lit ''4'', lit ''2'', lit ''+'', lit ''-'',
     Sym (\<lambda>x. x = 0xB0), Sym (\<lambda>x. x = 0xF8), Sym (\<lambda>x. x = 0xBA),
     Seq (lit ''('') (Seq (plus1 (Sym isAlteration)) (lit '')''))]"

text \<open>\<open>(?:...)*(?:\/[A-G][#b]?)?\<close>, the \<open>chordSuffixPattern\<close> of songs.tsx.\<close>

definition chordSuffixPattern :: rexp where
  "chordSuffixPattern =
     Seq (Star chordSuffixAlt) (opt (Seq (lit ''/'') (Seq (Sym isRoot) (opt (Sym isAccidental)))))"

text \<open>\<open>[A-G][#b]?\<close> and the suffix pattern: the \<open>singleChordPattern\<close> of songs.tsx.\<close>

definition singleChordPattern :: rexp where
  "singleChordPattern = Seq (Sym isRoot) (Seq (opt (Sym isAccidental)) chordSuffixPattern)"

definition isChordToken :: "jsstring \<Rightarrow> bool" where
  "isChordToken token = test_anchored singleChordPattern (trim token)"

section \<open>The spelling preference of a key\<close>

text \<open>\<open>key.replace("m", "")\<close>: the first \<open>m\<close> is removed.\<close>

definition getKeyBase :: "jsstring \<Rightarrow> jsstring" where
  "getKeyBase key = remove1 (cu CHR ''m'') key"

text \<open>song-viewer.tsx, \<open>shouldUseFlats\<close>.\<close>

definition shouldUseFlats :: "jsstring \<Rightarrow> bool" where
  "shouldUseFlats key =
     (if cu CHR ''b'' \<in> set key then True
      else if cu CHR ''#'' \<in> set key then False
      else key \<in> set FLAT_KEYS)"

text \<open>reset-password.tsx, \<open>shouldUseFlats\<close> (the same text).\<close>

definition shouldUseFlatsService :: "jsstring \<Rightarrow> bool" where
  "shouldUseFlatsService key =
     (if cu CHR ''b'' \<in> set key then True
      else if cu CHR ''#'' \<in> set key then False
      else key \<in> set FLAT_KEYS)"

text \<open>songs.tsx, \<open>usesFlats\<close>, the preference \<open>handleKeyChange\<close> passes on.\<close>

definition usesFlats :: "jsstring \<Rightarrow> bool" where
  "usesFlats key = (let base = getKeyBase key in cu CHR ''b'' \<in> set base)"

section \<open>The parts of a chord, as transposeChord takes it apart\<close>

text \<open>
  \<open>transposeChord\<close> cuts a chord at its first slash into a main part and a bass part, reads
  root, modifier and suffix off the main part with \<open>chordRegex\<close> and the bass note off the
  bass part with \<open>noteRegex\<close>, and looks pitch classes up with \<open>noteValue\<close>. The functions
  below name these parts, for the properties that speak of them.
\<close>

definition mainPart :: "jsstring \<Rightarrow> jsstring" where
  "mainPart chord =
     (case indexOf (cu CHR ''/'') chord of Some slashIndex \<Rightarrow> take slashIndex chord | None \<Rightarrow> chord)"

definition bassPart :: "jsstring \<Rightarrow> jsstring option" where
  "bassPart chord =
     (case indexOf (cu CHR ''/'') chord of
        Some slashIndex \<Rightarrow> Some (drop (slashIndex + 1) chord)
      | None \<Rightarrow> None)"

definition rootPitchClass :: "jsstring \<Rightarrow> int option" where
  "rootPitchClass chord =
     (case chordRegex (mainPart chord) of
        Some (root, modifier, suffix) \<Rightarrow> Some (noteValue root modifier)
      | None \<Rightarrow> None)"




section \<open>The inline parser (song-viewer.tsx, parseLineWithChords)\<close>

record ChordPosition =
  chord :: jsstring
  position :: nat

record LineWithChords =
  lyrics :: jsstring
  chords :: "ChordPosition list"

text \<open>
  The match of \<open>\[[A-G][#b]?[^\]]*\]\<close> at the start of a string, as the matched text and
  the rest: an opening bracket, a root, then everything up to the first closing bracket,
  which must exist (\<open>#\<close> and \<open>b\<close> are not closing brackets, so \<open>[#b]?[^\]]*\<close> consumes
  what \<open>[^\]]*\<close> alone does).
\<close>

fun matchBracketChord :: "jsstring \<Rightarrow> (jsstring \<times> jsstring) option" where
  "matchBracketChord (lb # r # t) =
     (if lb = cu CHR ''['' \<and> isRoot r \<and> cu CHR '']'' \<in> set t then
        Some (lb # r # takeWhile (\<lambda>c. c \<noteq> cu CHR '']'') t @ [cu CHR '']''],
              tl (dropWhile (\<lambda>c. c \<noteq> cu CHR '']'') t))
      else None)"
| "matchBracketChord _ = None"

lemma matchBracketChord_shorter:
  "matchBracketChord s = Some (m, rest) \<Longrightarrow> length rest < length s"
proof (induction s rule: matchBracketChord.induct)
  case (1 lb r t)
  have "length (dropWhile (\<lambda>c. c \<noteq> cu CHR '']'') t) \<le> length t" by (rule length_dropWhile_le)
  with 1 show ?case by (auto split: if_splits)
qed simp_all

text \<open>
  \<open>line.split(/(\[[A-G][#b]?[^\]]*\])/g)\<close>: the text before each match, the match itself
  (the pattern is one capture group), and the text after the last match. \<open>acc\<close> is the text
  since the last match. The pattern never matches the empty string, so the empty line splits
  into one empty part.
\<close>

function splitChords :: "jsstring \<Rightarrow> jsstring \<Rightarrow> jsstring list" where
  "splitChords acc [] = [acc]"
| "splitChords acc (c # cs) =
     (case matchBracketChord (c # cs) of
        Some (m, rest) \<Rightarrow> acc # m # splitChords [] rest
      | None \<Rightarrow> splitChords (acc @ [c]) cs)"
  by pat_completeness auto

termination splitChords
  by (relation "measure (\<lambda>(acc, s). length s)") (auto dest: matchBracketChord_shorter)

text \<open>
  \<open>part.match(/^\[([A-G][#b]?[^\]]*)\]$/)\<close>: the part is one bracketed group from its first
  to its last character; the result is the text between the brackets.
\<close>

definition chordMatch :: "jsstring \<Rightarrow> jsstring option" where
  "chordMatch part =
     (case part of
        lb # r # t \<Rightarrow>
          if lb = cu CHR ''['' \<and> isRoot r \<and> t \<noteq> [] \<and> last t = cu CHR '']'' \<and>
             cu CHR '']'' \<notin> set (butlast t)
          then Some (r # butlast t) else None
      | _ \<Rightarrow> None)"

text \<open>
  The loop over the parts, on the state \<open>(chords, lyrics, currentPos)\<close> (the first two are
  named \<open>chordsAcc\<close> and \<open>lyricsAcc\<close> here, apart from the fields of the result).
\<close>

fun parseParts ::
  "jsstring list \<Rightarrow> ChordPosition list \<times> jsstring \<times> nat \<Rightarrow> ChordPosition list \<times> jsstring \<times> nat"
where
  "parseParts [] st = st"
| "parseParts (part # parts) (chordsAcc, lyricsAcc, currentPos) =
     (case chordMatch part of
        Some c \<Rightarrow>
          parseParts parts
            (chordsAcc @ [\<lparr>chord = c, position = currentPos\<rparr>], lyricsAcc, currentPos)
      | None \<Rightarrow> parseParts parts (chordsAcc, lyricsAcc @ part, currentPos + length part))"

definition parseLineWithChords :: "jsstring \<Rightarrow> LineWithChords" where
  "parseLineWithChords line =
     (case parseParts (splitChords [] line) ([], [], 0) of
        (chordsAcc, lyricsAcc, currentPos) \<Rightarrow> \<lparr>lyrics = lyricsAcc, chords = chordsAcc\<rparr>)"

section \<open>The serializer of the specification\<close>

text \<open>
  Modelled from the spec: \<open>serializeLine\<close> is no function of the repository (the nearest
  code, \<open>handleChordSubmit\<close>, inserts one new chord into a line). The specification words
  it so: walk \<open>lyricText\<close> left to right by character index; immediately before appending
  the character at index \<open>i\<close>, emit \<open>[chord]\<close> for every marker whose offset equals \<open>i\<close>, in
  original relative order; after the loop, append any markers whose offset equals the length
  of \<open>lyricText\<close>.
\<close>

definition emitAt :: "ChordPosition list \<Rightarrow> nat \<Rightarrow> jsstring" where
  "emitAt chordMarkers i =
     concat (map (\<lambda>m. cu CHR ''['' # chord m @ [cu CHR '']''])
                 (filter (\<lambda>m. position m = i) chordMarkers))"

definition serializeLine :: "jsstring \<Rightarrow> ChordPosition list \<Rightarrow> jsstring" where
  "serializeLine lyricText chordMarkers =
     concat (map (\<lambda>i. emitAt chordMarkers i @ [lyricText ! i]) [0..<length lyricText])
     @ emitAt chordMarkers (length lyricText)"

section \<open>The line classifier (song-viewer.tsx, isChordOnlyLine)\<close>

text \<open>
  The section tags of the first \<open>replace\<close>, each with its brackets: Intro, Verse, Chorus,
  Bridge, Refrao, Ponte, Solo, Tab, Instrumental, Pre-Chorus, Pre-Refrao, Outro, Final, in
  the order of the alternation; the a of Refrao carries a tilde (code unit E3) and the
  second e of Pre-Refrao an acute accent (code unit E9).
\<close>

definition sectionTags :: "jsstring list" where
  "sectionTags = [js ''Intro'', js ''Verse'', js ''Chorus'', js ''Bridge'',
     js ''Refr'' @ [0xE3] @ js ''o'', js ''Ponte'', js ''Solo'', js ''Tab'',
     js ''Instrumental'', js ''Pre-Chorus'',
     js ''Pr'' @ [0xE9] @ js ''-Refr'' @ [0xE3] @ js ''o'', js ''Outro'', js ''Final'']"

definition bracketed :: "jsstring \<Rightarrow> jsstring" where
  "bracketed t = cu CHR ''['' # t @ [cu CHR '']'']"

text \<open>
  Matching with the \<open>i\<close> flag compares the upper-case forms of two code units. On the
  characters of the tags this is: an ASCII letter matches its two cases, the a with tilde
  and the e with acute accent match their capitals (C3, C9), and every other character only
  itself (a character outside
  ASCII whose capital is an ASCII letter does not match that letter).
\<close>

definition upperTag :: "jschar \<Rightarrow> jschar" where
  "upperTag c =
     (if cu CHR ''a'' \<le> c \<and> c \<le> cu CHR ''z'' then c - 32
      else if c = 0xE3 then 0xC3
      else if c = 0xE9 then 0xC9
      else c)"

definition startsWithIgnoreCase :: "jsstring \<Rightarrow> jsstring \<Rightarrow> bool" where
  "startsWithIgnoreCase p s =
     (length p \<le> length s \<and> map upperTag (take (length p) s) = map upperTag p)"

text \<open>The tag that matches at the start of a string, if one does.\<close>

definition matchTag :: "jsstring \<Rightarrow> jsstring option" where
  "matchTag s = find (\<lambda>t. startsWithIgnoreCase t s) (map bracketed sectionTags)"

lemma matchTag_length: "matchTag s = Some t \<Longrightarrow> 0 < length t \<and> length t \<le> length s"
  by (auto simp: matchTag_def find_Some_iff bracketed_def startsWithIgnoreCase_def)

text \<open>\<open>line.replace(/\[(Intro|...|Final)\]/gi, "")\<close>: every match, from the left, is removed.\<close>

function removeSectionTags :: "jsstring \<Rightarrow> jsstring" where
  "removeSectionTags [] = []"
| "removeSectionTags (c # cs) =
     (case matchTag (c # cs) of
        Some t \<Rightarrow> removeSectionTags (drop (length t) (c # cs))
      | None \<Rightarrow> c # removeSectionTags cs)"
  by pat_completeness auto

termination removeSectionTags
  by (relation "measure length") (auto dest: matchTag_length)

text \<open>
  The second \<open>replace\<close>, of the class of bar separators by a space: bar, hyphen, en dash
  (code unit 2013) and em dash (code unit 2014).
\<close>

definition isBarSeparator :: "jschar \<Rightarrow> bool" where
  "isBarSeparator c = (c = cu CHR ''|'' \<or> c = cu CHR ''-'' \<or> c = 0x2013 \<or> c = 0x2014)"

definition replaceBars :: "jsstring \<Rightarrow> jsstring" where
  "replaceBars s = map (\<lambda>c. if isBarSeparator c then cu CHR '' '' else c) s"

text \<open>
  \<open>s.split(/\s+/)\<close>: the pieces between the runs of white space; \<open>acc\<close> is the piece being
  read. A run at the start or at the end leaves an empty piece there.
\<close>

function splitWhitespace :: "jsstring \<Rightarrow> jsstring \<Rightarrow> jsstring list" where
  "splitWhitespace acc [] = [acc]"
| "splitWhitespace acc (c # cs) =
     (if isSpace c then acc # splitWhitespace [] (dropWhile isSpace cs)
      else splitWhitespace (acc @ [c]) cs)"
  by pat_completeness auto

termination splitWhitespace
  by (relation "measure (\<lambda>(acc, s). length s)")
     (auto simp: less_Suc_eq_le length_dropWhile_le)

text \<open>
  \<open>isChordOnlyLine\<close>. The last test, \<open>chordTokens.length >= tokens.length * 0.5\<close>, is exact on
  these small integers and written without the fraction.
\<close>

definition isChordOnlyLine :: "jsstring \<Rightarrow> bool" where
  "isChordOnlyLine line =
     (let cleanLine = replaceBars (removeSectionTags line) in
      if cu CHR ''['' \<in> set cleanLine \<and> cu CHR '']'' \<in> set cleanLine then False
      else
        (let tokens = filter (\<lambda>t. length t > 0) (splitWhitespace [] (trim cleanLine)) in
         if length tokens = 0 then False
         else
           (let chordTokens = filter isChordToken tokens in
            length chordTokens > 0 \<and> length tokens \<le> 2 * length chordTokens)))"

section \<open>The classifier as the specification words it\<close>

text \<open>
  For the comparison with \<open>isChordOnlyLine\<close>: the tokens of a text are its maximal runs of
  characters that are not white space, and a bracket pair is an opening bracket with a
  closing bracket somewhere after it.
\<close>

function wordsOf :: "jsstring \<Rightarrow> jsstring list" where
  "wordsOf s =
     (case dropWhile isSpace s of
        [] \<Rightarrow> []
      | c # cs \<Rightarrow>
          takeWhile (\<lambda>x. \<not> isSpace x) (c # cs) # wordsOf (dropWhile (\<lambda>x. \<not> isSpace x) cs))"
  by pat_completeness auto

termination wordsOf
proof (relation "measure length", simp)
  fix s c cs
  assume a: "dropWhile isSpace s = c # cs"
  have "length (dropWhile (\<lambda>x. \<not> isSpace x) cs) \<le> length cs" by (rule length_dropWhile_le)
  also have "length cs < length (dropWhile isSpace s)" using a by simp
  also have "\<dots> \<le> length s" by (rule length_dropWhile_le)
  finally show "(dropWhile (\<lambda>x. \<not> isSpace x) cs, s) \<in> measure length" by simp
qed

declare wordsOf.simps [simp del]

definition hasBracketPair :: "jsstring \<Rightarrow> bool" where
  "hasBracketPair s = (cu CHR '']'' \<in> set (dropWhile (\<lambda>c. c \<noteq> cu CHR ''['') s))"

definition specChordOnlyLine :: "jsstring \<Rightarrow> bool" where
  "specChordOnlyLine line =
     (let residual = replaceBars (removeSectionTags line);
          tokens = wordsOf residual;
          chordCount = length (filter isChordToken tokens)
      in \<not> hasBracketPair residual \<and> length tokens \<ge> 1 \<and>
         chordCount \<ge> 1 \<and> 2 * chordCount \<ge> length tokens)"

section \<open>The stacked converter (songs.tsx, parseCifraclubContent)\<close>























section \<open>The detected key as the specification words it\<close>





section \<open>The parts of a chord, as the grammar divides it\<close>






section \<open>Auxiliary notions for the proofs\<close>










text \<open>
  The markers and the lyric text the loop of the parser adds for a list of parts, from the
  position \<open>k\<close> on.
\<close>

fun markersFrom :: "nat \<Rightarrow> jsstring list \<Rightarrow> ChordPosition list" where
  "markersFrom k [] = []"
| "markersFrom k (p # ps) =
     (case chordMatch p of
        Some c \<Rightarrow> \<lparr>chord = c, position = k\<rparr> # markersFrom k ps
      | None \<Rightarrow> markersFrom (k + length p) ps)"

fun lyricsOf :: "jsstring list \<Rightarrow> jsstring" where
  "lyricsOf [] = []"
| "lyricsOf (p # ps) = (case chordMatch p of Some c \<Rightarrow> lyricsOf ps | None \<Rightarrow> p @ lyricsOf ps)"

text \<open>The serializer as a recursion over the lyric text, from the index \<open>i\<close> on.\<close>

fun serializeFrom :: "nat \<Rightarrow> jsstring \<Rightarrow> ChordPosition list \<Rightarrow> jsstring" where
  "serializeFrom i [] ms = emitAt ms i"
| "serializeFrom i (c # cs) ms = emitAt ms i @ c # serializeFrom (Suc i) cs ms"


text \<open>
  A prefix of a line in which every opening bracket followed by a root letter has its closing
  bracket; and a marker moved \<open>n\<close> places to the right.
\<close>

fun closedLine :: "jsstring \<Rightarrow> bool" where
  "closedLine (c # r # t) =
     ((c = cu CHR ''['' \<and> isRoot r \<longrightarrow> cu CHR '']'' \<in> set t) \<and> closedLine (r # t))"
| "closedLine _ = True"

definition shiftMarker :: "nat \<Rightarrow> ChordPosition \<Rightarrow> ChordPosition" where
  "shiftMarker n m = m\<lparr>position := n + position m\<rparr>"






text \<open>What \<open>transposeChord\<close> does to a chord without a slash.\<close>

definition transposeBase :: "jsstring \<Rightarrow> int \<Rightarrow> bool \<Rightarrow> jsstring" where
  "transposeBase m d f =
     (case chordRegex m of None \<Rightarrow> m
      | Some (r, md, s) \<Rightarrow> noteNames f ! nat ((noteValue r md + d) mod 12) @ s)"

section \<open>Properties of the regular expressions\<close>

lemmas eval_strings = js_def cu_def


declare pm.simps(5) [simp del]








text \<open>Evaluating the matcher on a given string.\<close>

lemma pm_lit: "pm (lit w) s = (if take (length w) s = js w then [drop (length w) s] else [])"
proof (induction w arbitrary: s)
  case Nil
  then show ?case by (simp add: js_def)
next
  case (Cons c w)
  show ?case by (cases s) (auto simp: Cons js_def)
qed

lemma pm_chordSuffixAlt:
  "pm chordSuffixAlt s = pm (alts [lit ''m'', lit ''M'', lit ''maj'', lit ''min'', lit ''dim'',
     lit ''aug'', lit ''sus'', lit ''add'', lit ''7M'', lit ''7m'', lit ''7'', lit ''9'',
     lit ''11'', lit ''13'', lit ''6'', lit ''5'', lit ''4'', lit ''2'', lit ''+'', lit ''-'',
     Sym (\<lambda>x. x = 0xB0), Sym (\<lambda>x. x = 0xF8), Sym (\<lambda>x. x = 0xBA),
     Seq (lit ''('') (Seq (plus1 (Sym isAlteration)) (lit '')''))]) s"
  by (simp only: chordSuffixAlt_def)

lemma pm_chordSuffixPattern:
  "pm chordSuffixPattern s =
     pm (Seq (Star chordSuffixAlt)
          (opt (Seq (lit ''/'') (Seq (Sym isRoot) (opt (Sym isAccidental)))))) s"
  by (simp only: chordSuffixPattern_def)

lemma pm_singleChordPattern:
  "pm singleChordPattern s =
     pm (Seq (Sym isRoot) (Seq (opt (Sym isAccidental)) chordSuffixPattern)) s"
  by (simp only: singleChordPattern_def)

lemmas eval_pm = pm_lit pm_chordSuffixAlt pm_chordSuffixPattern pm_singleChordPattern
  pm.simps(5) opt_def plus1_def isRoot_def isAccidental_def isAlteration_def eval_strings

lemmas eval_chord = isChordToken_def test_anchored_def trim_def isSpace_def eval_pm

text \<open>Sums that are exact.\<close>

lemma bitLength_le: "n < 2 ^ k \<Longrightarrow> bitLength n \<le> k"
proof (induction k arbitrary: n)
  case 0
  then show ?case by (subst bitLength.simps) simp
next
  case (Suc k)
  show ?case
  proof (cases "n = 0")
    case True
    then show ?thesis by (subst bitLength.simps) simp
  next
    case False
    from Suc(2) have "n div 2 < 2 ^ k" by simp
    from Suc(1)[OF this] False show ?thesis by (subst bitLength.simps) simp
  qed
qed

lemma bitLength_gt: "2 ^ k \<le> n \<Longrightarrow> k < bitLength n"
proof (induction k arbitrary: n)
  case 0
  then show ?case by (subst bitLength.simps) simp
next
  case (Suc k)
  have "(0::nat) < 2 ^ Suc k" by simp
  with Suc(2) have n: "n \<noteq> 0" by linarith
  from Suc(2) have "2 ^ k \<le> n div 2" by simp
  from Suc(1)[OF this] n show ?case by (subst bitLength.simps) simp
qed

lemma ulp_small: "\<bar>x\<bar> < 2 ^ 53 \<Longrightarrow> ulp x = 1"
proof -
  assume "\<bar>x\<bar> < 2 ^ 53"
  then have "nat \<bar>x\<bar> < 2 ^ 53" by (simp add: nat_less_iff)
  from bitLength_le[OF this] show ?thesis by (simp add: ulp_def)
qed

lemma ulp_two: "2 ^ 53 \<le> \<bar>x\<bar> \<Longrightarrow> \<bar>x\<bar> < 2 ^ 54 \<Longrightarrow> ulp x = 2"
proof -
  assume a: "2 ^ 53 \<le> \<bar>x\<bar>" and b: "\<bar>x\<bar> < 2 ^ 54"
  from a have "(2::nat) ^ 53 \<le> nat \<bar>x\<bar>" by (simp add: le_nat_iff)
  from bitLength_gt[OF this] have 1: "53 < bitLength (nat \<bar>x\<bar>)" .
  from b have "nat \<bar>x\<bar> < 2 ^ 54" by (simp add: nat_less_iff)
  from bitLength_le[OF this] have 2: "bitLength (nat \<bar>x\<bar>) \<le> 54" .
  from 1 2 have "bitLength (nat \<bar>x\<bar>) = 54" by simp
  then show ?thesis by (simp add: ulp_def)
qed

lemma roundDouble_exact: "\<bar>x\<bar> \<le> 2 ^ 53 \<Longrightarrow> roundDouble x = x"
proof -
  assume a: "\<bar>x\<bar> \<le> 2 ^ 53"
  show ?thesis
  proof (cases "\<bar>x\<bar> < 2 ^ 53")
    case True
    then show ?thesis by (simp add: roundDouble_def ulp_small)
  next
    case False
    with a have e: "\<bar>x\<bar> = 2 ^ 53" by simp
    then have u: "ulp x = 2" by (simp add: ulp_two)
    from e have "x = 2 ^ 53 \<or> x = - (2 ^ 53)" by (simp add: abs_if split: if_splits)
    then show ?thesis unfolding roundDouble_def u by auto
  qed
qed

lemma js_add_exact: "\<bar>a + b\<bar> \<le> 2 ^ 53 \<Longrightarrow> js_add a b = a + b"
  by (simp add: js_add_def roundDouble_exact)

lemma js_rem_12: "js_rem a 12 = (if a < 0 then - ((- a) mod 12) else a mod 12)"
  by (simp add: js_rem_def sgn_if)

lemma wrap12_mod: "wrap12 v = v mod 12"
proof -
  have lo: "(- v) mod 12 < 12" and nn: "0 \<le> v mod 12" by simp_all
  have ge: "0 \<le> js_rem v 12 + 12"
  proof (cases "v < 0")
    case True
    then have "js_rem v 12 = - ((- v) mod 12)" by (simp add: js_rem_12)
    with lo show ?thesis by linarith
  next
    case False
    then have "js_rem v 12 = v mod 12" by (simp add: js_rem_12)
    with nn show ?thesis by linarith
  qed
  have "(js_rem v 12 + 12) mod 12 = js_rem v 12 mod 12" by simp
  also have "\<dots> = v mod 12" unfolding js_rem_12 by (simp add: mod_minus_eq)
  finally have eq: "(js_rem v 12 + 12) mod 12 = v mod 12" .
  have "js_rem v 12 \<le> \<bar>v\<bar> mod 12" by (simp add: js_rem_12)
  also have "\<dots> < 12" by simp
  finally have "js_rem v 12 + 12 < 24" by simp
  with ge have "\<bar>js_rem v 12 + 12\<bar> \<le> 2 ^ 53" by simp
  then have ex: "js_add (js_rem v 12) 12 = js_rem v 12 + 12" by (rule js_add_exact)
  from ge have "js_rem (js_rem v 12 + 12) 12 = (js_rem v 12 + 12) mod 12"
    by (subst js_rem_12) (simp del: mod_add_self2)
  with eq ex show ?thesis by (simp add: wrap12_def)
qed


lemma indexOf_None: "(indexOf x s = None) = (x \<notin> set s)"
  by (induction s) auto

lemma indexOf_Some: "indexOf x s = Some i \<Longrightarrow> x \<notin> set (take i s) \<and> i < length s \<and> s ! i = x"
  by (induction s arbitrary: i) (auto split: if_splits)


lemma NOTE_MAP_range: "NOTE_MAP k = Some v \<Longrightarrow> 0 \<le> v \<and> v < 12"
  by (auto simp: NOTE_MAP_def split: if_splits)

lemma noteValue_range: "0 \<le> noteValue r md \<and> noteValue r md < 12"
  unfolding noteValue_def using NOTE_MAP_range
  by (auto split: option.splits)

lemma js_add_noteValue:
  "- (2 ^ 53) \<le> d \<Longrightarrow> d \<le> 2 ^ 53 - 11 \<Longrightarrow> js_add (noteValue r md) d = noteValue r md + d"
  using noteValue_range[of r md] by (intro js_add_exact) (simp add: abs_if)

lemma js_add_noteValue_mod: "js_add (noteValue r md) (d mod 12) = noteValue r md + d mod 12"
proof -
  have "0 \<le> d mod 12" "d mod 12 < 12" by simp_all
  then show ?thesis by (intro js_add_noteValue) simp_all
qed




section \<open>Properties of transposition\<close>

lemma wrap12_range: "0 \<le> wrap12 v \<and> wrap12 v < 12"
  by (simp add: wrap12_mod)

lemma transposeChordForSave_eq:
  "- (2 ^ 53) \<le> d \<Longrightarrow> d \<le> 2 ^ 53 - 11 \<Longrightarrow>
   transposeChordForSave c d f = transposeChord c d f"
proof (induction c d f rule: transposeChord.induct)
  case (1 ch semitones useFlats)
  show ?case
    by (subst transposeChord.simps, subst transposeChordForSave.simps)
       (use 1 in \<open>auto simp: wrap12_mod js_add_noteValue js_add_noteValue_mod Let_def
          mod_simps split: option.splits\<close>)
qed

lemma transposeChordService_eq: "transposeChordService c d f = transposeChord c d f"
proof (induction c d f rule: transposeChord.induct)
  case (1 ch semitones useFlats)
  show ?case
    by (subst transposeChord.simps, subst transposeChordService.simps)
       (use 1 in \<open>auto simp: Let_def split: option.splits\<close>)
qed

section \<open>The round trip of transposition\<close>








lemma transposeChord_noslash:
  "indexOf (cu CHR ''/'') m = None \<Longrightarrow>
   transposeChord m d f =
     (case chordRegex m of None \<Rightarrow> m
      | Some (r, md, s) \<Rightarrow> noteNames f ! nat ((noteValue r md + d) mod 12) @ s)"
  by (subst transposeChord.simps)
     (simp add: wrap12_mod js_add_noteValue_mod mod_simps split: option.splits)

lemma transposeChord_slash:
  "indexOf (cu CHR ''/'') c = Some i \<Longrightarrow>
   transposeChord c d f = transposeChord (take i c) d f @ cu CHR ''/'' # transposeNote (drop (Suc i) c) d f"
  by (subst transposeChord.simps) (simp add: js_def)

lemma transposeNote_eq:
  "- (2 ^ 53) \<le> d \<Longrightarrow> d \<le> 2 ^ 53 - 11 \<Longrightarrow>
   transposeNote b d f =
     (case noteRegex b of None \<Rightarrow> b
      | Some (r, md) \<Rightarrow> noteNames f ! nat ((noteValue r md + d) mod 12))"
  by (simp add: transposeNote_def wrap12_mod js_add_noteValue split: option.splits)

lemma transposeNote_None: "noteRegex b = None \<Longrightarrow> transposeNote b d f = b"
  by (simp add: transposeNote_def)











lemma rootPitchClass_alt:
  "rootPitchClass c = map_option (\<lambda>(r, md, s). noteValue r md) (chordRegex (mainPart c))"
  by (simp add: rootPitchClass_def split: option.splits)

lemma transposeChord_unfold:
  "transposeChord c d f =
     (case indexOf (cu CHR ''/'') c of
        None \<Rightarrow> transposeBase c d f
      | Some i \<Rightarrow> transposeBase (take i c) d f @ cu CHR ''/'' # transposeNote (drop (Suc i) c) d f)"
proof (cases "indexOf (cu CHR ''/'') c")
  case None
  then show ?thesis by (simp add: transposeChord_noslash transposeBase_def)
next
  case (Some i)
  from indexOf_Some[OF Some] have "indexOf (cu CHR ''/'') (take i c) = None"
    by (simp add: indexOf_None)
  then have eq: "transposeChord (take i c) d f = transposeBase (take i c) d f"
    by (simp add: transposeChord_noslash transposeBase_def)
  have "transposeChord c d f =
      transposeChord (take i c) d f @ cu CHR ''/'' # transposeNote (drop (Suc i) c) d f"
    by (rule transposeChord_slash[OF Some])
  then show ?thesis unfolding eq Some by simp
qed

lemmas eval_transpose = transposeChord_unfold transposeBase_def transposeNote_eq
  isRoot_def isAccidental_def isLineTerminator_def eval_strings

lemmas eval_notes = noteValue_def NOTE_MAP_def noteNames_def NOTE_NAMES_FLAT_def
  NOTE_NAMES_SHARP_def eval_strings

































lemma js_add_B_rounds: "js_add 11 (2 ^ 53 - 2) = 2 ^ 53 + 8"
proof -
  have u: "ulp (11 + (2 ^ 53 - 2)) = 2" by (rule ulp_two) simp_all
  show ?thesis unfolding js_add_def roundDouble_def u by (simp add: Let_def)
qed

lemma noteValue_B: "noteValue (cu CHR ''B'') [] = 11"
  by (simp add: noteValue_def NOTE_MAP_def eval_strings)















section \<open>The three copies of chord transposition\<close>

lemma chordRegex_B: "chordRegex (js ''B'') = Some (cu CHR ''B'', [], [])"
  by (simp add: isRoot_def eval_strings)

lemma forSave_B_rounded: "transposeChordForSave (js ''B'') (2 ^ 53 - 2) False = js ''E''"
proof -
  have "indexOf (cu CHR ''/'') (js ''B'') = None" by (simp add: eval_strings)
  then have "transposeChordForSave (js ''B'') (2 ^ 53 - 2) False =
      noteNames False ! nat (wrap12 (js_add 11 (2 ^ 53 - 2)))"
    by (subst transposeChordForSave.simps) (simp add: chordRegex_B noteValue_B)
  also have "\<dots> = js ''E''"
    unfolding js_add_B_rounds wrap12_mod
    by (simp add: noteNames_def NOTE_NAMES_SHARP_def eval_strings)
  finally show ?thesis .
qed

lemma viewer_B_exact: "transposeChord (js ''B'') (2 ^ 53 - 2) False = js ''F''"
proof -
  have "indexOf (cu CHR ''/'') (js ''B'') = None" by (simp add: eval_strings)
  then have "transposeChord (js ''B'') (2 ^ 53 - 2) False =
      noteNames False ! nat ((11 + (2 ^ 53 - 2)) mod 12)"
    by (simp add: transposeChord_noslash chordRegex_B noteValue_B)
  also have "\<dots> = js ''F''"
    by (simp add: noteNames_def NOTE_NAMES_SHARP_def eval_strings)
  finally show ?thesis .
qed

text \<open>
  C10, as the claim states it, fails. For the semitone count \<open>2 ^ 53 - 2\<close> and the chord
  \<open>B\<close>, the copy of songs.tsx adds 11 to the count before any remainder is taken; the sum
  \<open>2 ^ 53 + 9\<close> is no double and is rounded to \<open>2 ^ 53 + 8\<close>, which gives \<open>E\<close>. The copy of
  song-viewer.tsx takes the remainder of the count first and gives \<open>F\<close>.
\<close>

theorem C10_counterexample:
  "\<not> (\<forall>c d f. transposeChordForSave c d f = transposeChord c d f \<and>
                 transposeChordService c d f = transposeChord c d f)"
proof
  assume "\<forall>c d f. transposeChordForSave c d f = transposeChord c d f \<and>
                 transposeChordService c d f = transposeChord c d f"
  then have "transposeChordForSave (js ''B'') (2 ^ 53 - 2) False =
             transposeChord (js ''B'') (2 ^ 53 - 2) False" by blast
  then show False unfolding forSave_B_rounded viewer_B_exact by (simp add: eval_strings)
qed

text \<open>
  C10, amended. For every chord string, every flag and every integer semitone count \<open>d\<close>
  from \<open>- 2 ^ 53\<close> to \<open>2 ^ 53 - 11\<close> (where the sum of a pitch class and \<open>d\<close> is exact), the
  three copies return the same string; the copies of song-viewer.tsx and reset-password.tsx
  agree for every \<open>d\<close>.
\<close>

theorem C10_transpose_copies_equal:
  "(- (2 ^ 53) \<le> d \<and> d \<le> 2 ^ 53 - 11 \<longrightarrow>
      transposeChordForSave c d f = transposeChord c d f) \<and>
   transposeChordService c d f = transposeChord c d f"
  by (simp add: transposeChordForSave_eq transposeChordService_eq)

lemma viewer_Bb_11: "transposeChord (js ''Bb/D'') (- 11) True = js ''B/Eb''"
  apply (simp add: eval_transpose)
  apply (simp add: eval_notes)
  done

theorem C10_transpose_copies_witness:
  "- (2 ^ 53) \<le> (- 11 :: int) \<and> (- 11 :: int) \<le> 2 ^ 53 - 11 \<and>
   transposeChordForSave (js ''Bb/D'') (- 11) True = js ''B/Eb'' \<and>
   transposeChordService (js ''Bb/D'') (- 11) True = js ''B/Eb''"
  using C10_transpose_copies_equal[of "- 11" "js ''Bb/D''" True] viewer_Bb_11
  by simp

section \<open>Transposition of text that is not a chord\<close>

lemma Amazing_no_token: "\<not> isChordToken (js ''Amazing'')"
  by (simp add: eval_chord del: lit.simps)

lemma Amazing_transposed: "transposeChord (js ''Amazing'') 2 False = js ''Bmazing''"
  apply (simp add: eval_transpose)
  apply (simp add: eval_notes)
  done

text \<open>
  C2, as the claim states it, fails: \<open>Amazing\<close> is not a chord of the grammar, and
  \<open>transposeChord\<close> turns it into \<open>Bmazing\<close>, because it reads any text that starts with a
  letter A to G as a root with a suffix it does not look at.
\<close>

theorem C2_counterexample:
  "\<not> (\<forall>t d f. \<not> isChordToken t \<longrightarrow> transposeChord t d f = t)"
proof
  assume "\<forall>t d f. \<not> isChordToken t \<longrightarrow> transposeChord t d f = t"
  with Amazing_no_token have "transposeChord (js ''Amazing'') 2 False = js ''Amazing''" by blast
  with Amazing_transposed show False by (simp add: eval_strings)
qed

text \<open>
  C2, amended. A token is returned unchanged, for every integer \<open>d\<close> and flag \<open>f\<close>, when the
  part before its first slash does not match the pattern \<open>transposeChord\<close> itself uses
  (\<open>chordRegex\<close>: a root letter A to G, then anything but a line terminator) and the part
  after that slash, if there is one, is not a bare note name (\<open>noteRegex\<close>). The function is
  total: it returns a string for every input.
\<close>

theorem C2_unchanged_outside_loose_pattern:
  assumes "chordRegex (mainPart t) = None"
    and "case bassPart t of None \<Rightarrow> True | Some b \<Rightarrow> noteRegex b = None"
  shows "transposeChord t d f = t"
proof (cases "indexOf (cu CHR ''/'') t")
  case None
  with assms(1) show ?thesis by (simp add: transposeChord_noslash mainPart_def)
next
  case (Some i)
  from indexOf_Some[OF Some] have ns: "indexOf (cu CHR ''/'') (take i t) = None"
    and i: "i < length t" and ti: "t ! i = cu CHR ''/''" by (simp_all add: indexOf_None)
  from assms(1) Some have m: "transposeChord (take i t) d f = take i t"
    by (simp add: transposeChord_noslash[OF ns] mainPart_def)
  from assms(2) Some have b: "transposeNote (drop (Suc i) t) d f = drop (Suc i) t"
    by (simp add: bassPart_def transposeNote_None)
  have "t = take i t @ t ! i # drop (Suc i) t" using i by (simp add: id_take_nth_drop[symmetric])
  with ti have "take i t @ cu CHR ''/'' # drop (Suc i) t = t" by simp
  then show ?thesis unfolding transposeChord_slash[OF Some] m b .
qed

theorem C2_unchanged_witness:
  "chordRegex (mainPart (js ''la/la'')) = None \<and> bassPart (js ''la/la'') = Some (js ''la'') \<and>
   noteRegex (js ''la'') = None \<and> transposeChord (js ''la/la'') 7 True = js ''la/la''"
proof -
  have 1: "chordRegex (mainPart (js ''la/la'')) = None"
    by (simp add: mainPart_def isRoot_def eval_strings)
  have 2: "bassPart (js ''la/la'') = Some (js ''la'')" by (simp add: bassPart_def eval_strings)
  have 3: "noteRegex (js ''la'') = None" by (simp add: isRoot_def eval_strings)
  from 2 3 have 4: "case bassPart (js ''la/la'') of None \<Rightarrow> True | Some b \<Rightarrow> noteRegex b = None"
    by simp
  from C2_unchanged_outside_loose_pattern[OF 1 4, of 7 True] 1 2 3 show ?thesis by simp
qed

section \<open>Properties of the inline parser\<close>

lemma parseParts_eq:
  "parseParts ps (C, L, k) = (C @ markersFrom k ps, L @ lyricsOf ps, k + length (lyricsOf ps))"
  by (induction ps arbitrary: C L k) (auto split: option.splits)

lemma parseLine_eq:
  "parseLineWithChords line =
     \<lparr>lyrics = lyricsOf (splitChords [] line), chords = markersFrom 0 (splitChords [] line)\<rparr>"
  by (simp add: parseLineWithChords_def parseParts_eq)

lemma concat_splitChords: "concat (splitChords acc s) = acc @ s"
proof (induction acc s rule: splitChords.induct)
  case (1 acc)
  then show ?case by simp
next
  case (2 acc c cs)
  show ?case
  proof (cases "matchBracketChord (c # cs)")
    case None
    with 2 show ?thesis by simp
  next
    case (Some mr)
    obtain m rest where mr: "mr = (m, rest)" by (cases mr)
    have "m @ rest = c # cs"
    proof (cases cs)
      case Nil
      with Some show ?thesis by simp
    next
      case (Cons r t)
      let ?P = "\<lambda>c. c \<noteq> cu CHR '']''"
      from Some mr Cons have c: "c = cu CHR ''[''" and in_t: "cu CHR '']'' \<in> set t"
        and m: "m = c # r # takeWhile ?P t @ [cu CHR '']'']" and rest: "rest = tl (dropWhile ?P t)"
        by (auto split: if_splits)
      from in_t have "dropWhile ?P t \<noteq> []" by (simp add: dropWhile_eq_Nil_conv)
      moreover from this have "hd (dropWhile ?P t) = cu CHR '']''"
        using hd_dropWhile[of ?P t] by simp
      ultimately have "dropWhile ?P t = cu CHR '']'' # tl (dropWhile ?P t)"
        by (cases "dropWhile ?P t") auto
      then have "takeWhile ?P t @ cu CHR '']'' # tl (dropWhile ?P t) = t"
        using takeWhile_dropWhile_id[of ?P t] by simp
      with m rest Cons show ?thesis by simp
    qed
    with 2(2) Some mr show ?thesis by simp
  qed
qed

lemma markersFrom_bounds:
  "m \<in> set (markersFrom k ps) \<Longrightarrow> k \<le> position m \<and> position m \<le> k + length (lyricsOf ps)"
  by (induction ps arbitrary: k) (fastforce split: option.splits)+

lemma markersFrom_sorted: "sorted (map position (markersFrom k ps))"
proof (induction ps arbitrary: k)
  case Nil
  then show ?case by simp
next
  case (Cons p ps)
  show ?case
  proof (cases "chordMatch p")
    case None
    with Cons show ?thesis by simp
  next
    case (Some c)
    with Cons markersFrom_bounds[of _ k ps] show ?thesis by auto
  qed
qed

lemma markersFrom_chords: "map chord (markersFrom k ps) = List.map_filter chordMatch ps"
  by (induction ps arbitrary: k) (auto simp: map_filter_simps split: option.splits)

lemma chordMatch_SomeD: "chordMatch p = Some c \<Longrightarrow> p = cu CHR ''['' # c @ [cu CHR '']'']"
  unfolding chordMatch_def
  by (auto split: list.splits if_splits) (metis append_butlast_last_id)

lemma emitAt_Cons:
  "emitAt (m # ms) i =
     (if position m = i then cu CHR ''['' # chord m @ cu CHR '']'' # emitAt ms i else emitAt ms i)"
  by (simp add: emitAt_def)

lemma emitAt_none: "\<forall>m \<in> set ms. position m \<noteq> i \<Longrightarrow> emitAt ms i = []"
  by (induction ms) (auto simp: emitAt_def)

lemma serializeFrom_drop: "position m < i \<Longrightarrow> serializeFrom i L (m # ms) = serializeFrom i L ms"
  by (induction L arbitrary: i) (auto simp: emitAt_Cons)

lemma serializeFrom_marker:
  "position m = k \<Longrightarrow>
   serializeFrom k L (m # ms) = cu CHR ''['' # chord m @ cu CHR '']'' # serializeFrom k L ms"
  by (cases L) (auto simp: emitAt_Cons serializeFrom_drop)

lemma serializeFrom_text:
  "\<forall>m \<in> set ms. k + length p \<le> position m \<Longrightarrow>
   serializeFrom k (p @ L) ms = p @ serializeFrom (k + length p) L ms"
proof (induction p arbitrary: k)
  case Nil
  then show ?case by simp
next
  case (Cons c p)
  from Cons(2) have "\<forall>m \<in> set ms. position m \<noteq> k" by auto
  then have e: "emitAt ms k = []" by (rule emitAt_none)
  from Cons(2) have "\<forall>m \<in> set ms. Suc k + length p \<le> position m" by simp
  from Cons(1)[OF this] e show ?case by simp
qed

lemma serializeFrom_parts: "serializeFrom k (lyricsOf ps) (markersFrom k ps) = concat ps"
proof (induction ps arbitrary: k)
  case Nil
  then show ?case by (simp add: emitAt_def)
next
  case (Cons p ps)
  show ?case
  proof (cases "chordMatch p")
    case None
    have "\<forall>m \<in> set (markersFrom (k + length p) ps). k + length p \<le> position m"
      using markersFrom_bounds by blast
    from serializeFrom_text[OF this] None Cons show ?thesis by simp
  next
    case (Some c)
    with Cons chordMatch_SomeD[OF Some] show ?thesis by (simp add: serializeFrom_marker)
  qed
qed

lemma serializeLine_from: 
  "concat (map (\<lambda>i. emitAt ms (k + i) @ [L ! i]) [0..<length L]) @ emitAt ms (k + length L)
     = serializeFrom k L ms"
proof (induction L arbitrary: k)
  case Nil
  then show ?case by simp
next
  case (Cons c L)
  have "[0..<length (c # L)] = 0 # map Suc [0..<length L]"
    by (simp add: upt_conv_Cons map_Suc_upt del: upt_Suc)
  then show ?case using Cons[of "Suc k"] by (simp add: comp_def del: upt_Suc)
qed

lemma serializeLine_eq: "serializeLine L ms = serializeFrom 0 L ms"
  using serializeLine_from[of ms 0 L] by (simp add: serializeLine_def)

lemma serialize_parse: "serializeLine (lyrics (parseLineWithChords x)) (chords (parseLineWithChords x)) = x"
  by (simp add: parseLine_eq serializeLine_eq serializeFrom_parts concat_splitChords)

text \<open>
  C3. For every line \<open>x\<close>: serializing the pair \<open>parseLineWithChords x\<close> as the
  specification describes and parsing the result again gives the same pair. (Serializing
  gives back \<open>x\<close> itself, lemma \<open>serialize_parse\<close>.)
\<close>

theorem C3_parse_serialize_stable:
  "parseLineWithChords
     (serializeLine (lyrics (parseLineWithChords x)) (chords (parseLineWithChords x)))
   = parseLineWithChords x"
  by (simp add: serialize_parse)

text \<open>
  C9. For every line, the pair the parser returns satisfies the marker invariant: every
  marker offset lies between 0 and the length of the lyric text, the offsets do not decrease
  along the list, and the markers are the bracketed groups of the line in their order from
  left to right (so markers of one offset keep their order of insertion).
\<close>

theorem C9_marker_invariant:
  "(\<forall>m \<in> set (chords (parseLineWithChords line)).
       0 \<le> position m \<and> position m \<le> length (lyrics (parseLineWithChords line))) \<and>
   sorted (map position (chords (parseLineWithChords line))) \<and>
   map chord (chords (parseLineWithChords line)) =
     List.map_filter chordMatch (splitChords [] line) \<and>
   concat (splitChords [] line) = line"
  using markersFrom_bounds[of _ 0 "splitChords [] line"]
  by (auto simp: parseLine_eq markersFrom_sorted markersFrom_chords concat_splitChords)

lemma closedLine_tl: "closedLine (c # cs) \<Longrightarrow> closedLine cs"
  by (cases cs) auto

lemma closedLine_suffix: "closedLine (a @ b) \<Longrightarrow> closedLine b"
  by (induction a) (auto dest: closedLine_tl)

lemma takeWhile_until: "x \<notin> set s \<Longrightarrow> takeWhile (\<lambda>c. c \<noteq> x) (s @ x # post) = s"
  by (induction s) auto

lemma dropWhile_until: "x \<notin> set s \<Longrightarrow> dropWhile (\<lambda>c. c \<noteq> x) (s @ x # post) = x # post"
  by (induction s) auto

lemma takeWhile_found: "x \<in> set t \<Longrightarrow> takeWhile (\<lambda>c. c \<noteq> x) (t @ e) = takeWhile (\<lambda>c. c \<noteq> x) t"
  by (induction t) auto

lemma dropWhile_found: "x \<in> set t \<Longrightarrow> dropWhile (\<lambda>c. c \<noteq> x) (t @ e) = dropWhile (\<lambda>c. c \<noteq> x) t @ e"
  by (induction t) auto

lemma match_group:
  assumes "isRoot r" and "cu CHR '']'' \<notin> set s"
  shows "matchBracketChord (cu CHR ''['' # r # s @ cu CHR '']'' # post) =
           Some (cu CHR ''['' # r # s @ [cu CHR '']''], post)"
  using assms by (simp add: takeWhile_until dropWhile_until)

lemma isRoot_not_bracket: "isRoot r \<Longrightarrow> r \<noteq> cu CHR ''['' \<and> r \<noteq> cu CHR '']''"
  by (auto simp: isRoot_def eval_strings)

lemma match_extend:
  assumes cl: "closedLine (c # cs)"
  shows "matchBracketChord (c # cs @ cu CHR ''['' # ext) =
           (case matchBracketChord (c # cs) of
              None \<Rightarrow> None
            | Some (m, rest) \<Rightarrow> Some (m, rest @ cu CHR ''['' # ext))"
proof (cases cs)
  case Nil
  then show ?thesis using isRoot_not_bracket by auto
next
  case (Cons r t)
  let ?P = "\<lambda>c. c \<noteq> cu CHR '']''"
  show ?thesis
  proof (cases "c = cu CHR ''['' \<and> isRoot r")
    case False
    with Cons show ?thesis by auto
  next
    case True
    with cl Cons have in_t: "cu CHR '']'' \<in> set t" by simp
    then have tw: "takeWhile ?P (t @ cu CHR ''['' # ext) = takeWhile ?P t"
      and dw: "dropWhile ?P (t @ cu CHR ''['' # ext) = dropWhile ?P t @ cu CHR ''['' # ext"
      by (simp_all add: takeWhile_found dropWhile_found)
    from in_t have "dropWhile ?P t \<noteq> []" by (simp add: dropWhile_eq_Nil_conv)
    with True Cons in_t tw dw show ?thesis by simp
  qed
qed

lemma match_rest_suffix:
  "matchBracketChord s = Some (m, rest) \<Longrightarrow> \<exists>p. s = p @ rest"
proof (induction s rule: matchBracketChord.induct)
  case (1 lb r t)
  let ?P = "\<lambda>c. c \<noteq> cu CHR '']''"
  from 1 have rest: "rest = tl (dropWhile ?P t)" and in_t: "cu CHR '']'' \<in> set t"
    by (auto split: if_splits)
  from in_t have ne: "dropWhile ?P t \<noteq> []" by (simp add: dropWhile_eq_Nil_conv)
  have "t = takeWhile ?P t @ dropWhile ?P t" by simp
  also have "dropWhile ?P t = hd (dropWhile ?P t) # tl (dropWhile ?P t)" using ne by simp
  finally have "lb # r # t = (lb # r # takeWhile ?P t @ [hd (dropWhile ?P t)]) @ rest"
    using rest by simp
  then show ?case by blast
qed simp_all

lemma split_group:
  assumes r: "isRoot r" and s: "cu CHR '']'' \<notin> set s"
  shows "closedLine pre \<Longrightarrow>
     splitChords acc (pre @ cu CHR ''['' # r # s @ cu CHR '']'' # post) =
       splitChords acc pre @ (cu CHR ''['' # r # s @ [cu CHR '']'']) # splitChords [] post"
proof (induction acc pre rule: splitChords.induct)
  case (1 acc)
  show ?case using match_group[OF r s, of post] by simp
next
  case (2 acc c cs)
  let ?ext = "r # s @ cu CHR '']'' # post"
  note me = match_extend[OF 2(3), of ?ext]
  show ?case
  proof (cases "matchBracketChord (c # cs)")
    case None
    with me have "matchBracketChord (c # cs @ cu CHR ''['' # ?ext) = None" by simp
    with None 2(1)[OF None closedLine_tl[OF 2(3)]] show ?thesis by simp
  next
    case (Some mr)
    obtain m rest where mr: "mr = (m, rest)" by (cases mr)
    with me Some have e: "matchBracketChord (c # cs @ cu CHR ''['' # ?ext) = Some (m, rest @ cu CHR ''['' # ?ext)"
      by simp
    from match_rest_suffix[OF Some[unfolded mr]] obtain p where "c # cs = p @ rest" ..
    with 2(3) have "closedLine rest" using closedLine_suffix by metis
    from 2(2)[OF Some mr[symmetric] this] e Some mr show ?thesis by simp
  qed
qed

lemma lyricsOf_append: "lyricsOf (a @ b) = lyricsOf a @ lyricsOf b"
  by (induction a) (auto split: option.splits)

lemma markersFrom_append:
  "markersFrom k (a @ b) = markersFrom k a @ markersFrom (k + length (lyricsOf a)) b"
  by (induction a arbitrary: k) (auto split: option.splits simp: add.assoc)

lemma markersFrom_shift: "markersFrom k ps = map (shiftMarker k) (markersFrom 0 ps)"
proof (induction ps arbitrary: k)
  case Nil
  then show ?case by simp
next
  case (Cons p ps)
  show ?case
  proof (cases "chordMatch p")
    case None
    have "markersFrom (k + length p) ps = map (shiftMarker (k + length p)) (markersFrom 0 ps)"
      by (rule Cons)
    moreover have "markersFrom (length p) ps = map (shiftMarker (length p)) (markersFrom 0 ps)"
      by (rule Cons)
    ultimately show ?thesis using None by (simp add: shiftMarker_def comp_def add.assoc)
  next
    case (Some c)
    with Cons[of k] show ?thesis by (simp add: shiftMarker_def)
  qed
qed

lemma chordMatch_group:
  "isRoot r \<Longrightarrow> cu CHR '']'' \<notin> set s \<Longrightarrow>
   chordMatch (cu CHR ''['' # r # s @ [cu CHR '']'']) = Some (r # s)"
  by (simp add: chordMatch_def)

text \<open>
  C8, amended. A bracketed group \<open>[s]\<close> whose content starts with a root letter A to G and
  holds no closing bracket, standing after a prefix \<open>pre\<close> in which every opening bracket
  followed by a root letter is closed (\<open>closedLine\<close>), becomes a marker that carries \<open>s\<close> at
  the length of the lyric text accumulated so far; \<open>s\<close> is not checked against the chord
  grammar, and the bracketed text adds nothing to the lyric text, which is that of the
  prefix followed by that of the rest of the line.
\<close>

theorem C8_root_group_is_marker:
  assumes "isRoot r" and "cu CHR '']'' \<notin> set s" and "closedLine pre"
  shows "parseLineWithChords (pre @ cu CHR ''['' # r # s @ cu CHR '']'' # post) =
     \<lparr>lyrics = lyrics (parseLineWithChords pre) @ lyrics (parseLineWithChords post),
      chords = chords (parseLineWithChords pre) @
        \<lparr>chord = r # s, position = length (lyrics (parseLineWithChords pre))\<rparr> #
        map (shiftMarker (length (lyrics (parseLineWithChords pre))))
            (chords (parseLineWithChords post))\<rparr>"
proof -
  let ?g = "cu CHR ''['' # r # s @ [cu CHR '']'']"
  have sp: "splitChords [] (pre @ cu CHR ''['' # r # s @ cu CHR '']'' # post) =
      splitChords [] pre @ ?g # splitChords [] post"
    by (rule split_group[OF assms])
  have cm: "chordMatch ?g = Some (r # s)" by (rule chordMatch_group[OF assms(1,2)])
  show ?thesis
    unfolding parseLine_eq sp
    using cm markersFrom_shift[of "length (lyricsOf (splitChords [] pre))" "splitChords [] post"]
    by (simp add: lyricsOf_append markersFrom_append)
qed

lemmas eval_parse = parseLineWithChords_def chordMatch_def isRoot_def eval_strings

lemma parse_riff:
  "parseLineWithChords (js ''[riff]'') = \<lparr>lyrics = js ''[riff]'', chords = []\<rparr>"
  by (simp add: eval_parse)

text \<open>
  C8, as the claim states it, fails: a bracketed group that does not start with a root
  letter, such as \<open>[riff]\<close>, is no marker; it stays in the lyric text.
\<close>

theorem C8_counterexample:
  "\<not> (\<forall>pre s post. cu CHR '']'' \<notin> set s \<longrightarrow>
        (\<exists>m \<in> set (chords (parseLineWithChords (pre @ cu CHR ''['' # s @ cu CHR '']'' # post))).
           chord m = s))"
proof
  assume a: "\<forall>pre s post. cu CHR '']'' \<notin> set s \<longrightarrow>
        (\<exists>m \<in> set (chords (parseLineWithChords (pre @ cu CHR ''['' # s @ cu CHR '']'' # post))).
           chord m = s)"
  have "cu CHR '']'' \<notin> set (js ''riff'')" by (simp add: eval_strings)
  with a have "\<exists>m \<in> set (chords (parseLineWithChords ([] @ cu CHR ''['' # js ''riff'' @ cu CHR '']'' # []))).
           chord m = js ''riff''" by blast
  moreover have "[] @ cu CHR ''['' # js ''riff'' @ cu CHR '']'' # [] = js ''[riff]''"
    by (simp add: eval_strings)
  ultimately show False by (simp add: parse_riff)
qed

lemma parse_pre: "parseLineWithChords (js ''[G]Amazing '') =
    \<lparr>lyrics = js ''Amazing '', chords = [\<lparr>chord = js ''G'', position = 0\<rparr>]\<rparr>"
  by (simp add: eval_parse)

lemma parse_post: "parseLineWithChords (js ''grace'') = \<lparr>lyrics = js ''grace'', chords = []\<rparr>"
  by (simp add: eval_parse)

theorem C8_root_group_witness:
  "isRoot (cu CHR ''D'') \<and> cu CHR '']'' \<notin> set (js '' hold'') \<and> closedLine (js ''[G]Amazing '') \<and>
   \<not> isChordToken (js ''D hold'') \<and>
   parseLineWithChords (js ''[G]Amazing [D hold]grace'') =
     \<lparr>lyrics = js ''Amazing grace'',
      chords = [\<lparr>chord = js ''G'', position = 0\<rparr>, \<lparr>chord = js ''D hold'', position = 8\<rparr>]\<rparr>"
proof -
  have 1: "isRoot (cu CHR ''D'')" by (simp add: isRoot_def eval_strings)
  have 2: "cu CHR '']'' \<notin> set (js '' hold'')" by (simp add: eval_strings)
  have 3: "closedLine (js ''[G]Amazing '')" by (simp add: isRoot_def eval_strings)
  have 4: "\<not> isChordToken (js ''D hold'')" by (simp add: eval_chord del: lit.simps)
  have 5: "js ''[G]Amazing '' @ cu CHR ''['' # cu CHR ''D'' # js '' hold'' @ cu CHR '']'' # js ''grace''
      = js ''[G]Amazing [D hold]grace''" by (simp add: eval_strings)
  from C8_root_group_is_marker[OF 1 2 3, of "js ''grace''"] 1 2 3 4
  show ?thesis unfolding 5 parse_pre parse_post by (simp add: shiftMarker_def eval_strings)
qed

lemma parse_example: "parseLineWithChords (js ''[G]Amazing [D]grace'') =
     \<lparr>lyrics = js ''Amazing grace'',
      chords = [\<lparr>chord = js ''G'', position = 0\<rparr>, \<lparr>chord = js ''D'', position = 8\<rparr>]\<rparr>"
  by (simp add: eval_parse)

theorem C9_marker_invariant_witness:
  "chords (parseLineWithChords (js ''[G]Amazing [D]grace'')) =
     [\<lparr>chord = js ''G'', position = 0\<rparr>, \<lparr>chord = js ''D'', position = 8\<rparr>] \<and>
   length (lyrics (parseLineWithChords (js ''[G]Amazing [D]grace''))) = 13 \<and>
   sorted (map position (chords (parseLineWithChords (js ''[G]Amazing [D]grace'')))) \<and>
   List.map_filter chordMatch (splitChords [] (js ''[G]Amazing [D]grace'')) = [js ''G'', js ''D'']"
  using C9_marker_invariant[of "js ''[G]Amazing [D]grace''"]
  by (simp add: parse_example) (simp add: eval_strings)

section \<open>Properties of the spelling preference\<close>

text \<open>
  C7. On the key \<open>F\<close> the copy of songs.tsx answers sharps where the two other copies
  answer flats: the call sites do not compute one preference.
\<close>

theorem C7_usesFlats_differs_on_F:
  "shouldUseFlats (js ''F'') = True \<and> shouldUseFlatsService (js ''F'') = True \<and>
   usesFlats (js ''F'') = False \<and> js ''F'' \<in> set KEYS"
  by (simp add: shouldUseFlats_def shouldUseFlatsService_def usesFlats_def getKeyBase_def
      FLAT_KEYS_def KEYS_def KEYS_MAJOR_def KEYS_MINOR_def eval_strings)

section \<open>Properties of the line classifier\<close>

text \<open>The tokens of \<open>isChordOnlyLine\<close> are the maximal runs without white space.\<close>

lemma wordsOf_dropWhile: "wordsOf (dropWhile isSpace s) = wordsOf s"
  by (subst wordsOf.simps, subst (2) wordsOf.simps) simp

lemma wordsOf_space: "isSpace c \<Longrightarrow> wordsOf (c # s) = wordsOf s"
  using wordsOf_dropWhile[of "c # s"] wordsOf_dropWhile[of s] by simp

lemma wordsOf_Nil: "wordsOf [] = []"
  by (subst wordsOf.simps) simp

lemma takeWhile_run:
  "\<forall>x \<in> set cs. P x \<Longrightarrow> sp = [] \<or> \<not> P (hd sp) \<Longrightarrow>
   takeWhile P (cs @ sp) = cs \<and> dropWhile P (cs @ sp) = sp"
  by (induction cs) (cases sp; auto)+

lemma wordsOf_word:
  assumes "acc \<noteq> []" and "\<forall>x \<in> set acc. \<not> isSpace x" and "s = [] \<or> isSpace (hd s)"
  shows "wordsOf (acc @ s) = acc # wordsOf s"
proof -
  obtain a as where acc: "acc = a # as" using assms(1) by (cases acc) auto
  with assms(2) have a: "\<not> isSpace a" by simp
  then have dw: "dropWhile isSpace (acc @ s) = a # (as @ s)" using acc by simp
  have s0: "s = [] \<or> \<not> \<not> isSpace (hd s)" using assms(3) by simp
  have tw: "takeWhile (\<lambda>x. \<not> isSpace x) (a # as @ s) = acc"
    using takeWhile_run[of acc "\<lambda>x. \<not> isSpace x" s, OF assms(2) s0] acc by simp
  have as: "\<forall>x \<in> set as. \<not> isSpace x" using assms(2) acc by simp
  have dr: "dropWhile (\<lambda>x. \<not> isSpace x) (as @ s) = s"
    using takeWhile_run[of as "\<lambda>x. \<not> isSpace x" s, OF as s0] by simp
  show ?thesis
    by (subst wordsOf.simps) (simp add: dw tw dr del: takeWhile.simps)
qed

lemma split_words:
  "\<forall>x \<in> set acc. \<not> isSpace x \<Longrightarrow>
   filter (\<lambda>t. length t > 0) (splitWhitespace acc s) = wordsOf (acc @ s)"
proof (induction acc s rule: splitWhitespace.induct)
  case (1 acc)
  show ?case
  proof (cases "acc = []")
    case True
    then show ?thesis by (simp add: wordsOf_Nil)
  next
    case False
    with wordsOf_word[OF False 1, of "[]"] show ?thesis by (simp add: wordsOf_Nil)
  qed
next
  case (2 acc c cs)
  show ?case
  proof (cases "isSpace c")
    case True
    from 2(1)[OF True] have ih: "filter (\<lambda>t. length t > 0) (splitWhitespace [] (dropWhile isSpace cs))
        = wordsOf cs" by (simp add: wordsOf_dropWhile)
    show ?thesis
    proof (cases "acc = []")
      case True
      with \<open>isSpace c\<close> ih show ?thesis by (simp add: wordsOf_space)
    next
      case False
      from wordsOf_word[OF False 2(3), of "c # cs"] \<open>isSpace c\<close>
      have "wordsOf (acc @ c # cs) = acc # wordsOf cs" by (simp add: wordsOf_space)
      with False \<open>isSpace c\<close> ih show ?thesis by simp
    qed
  next
    case False
    with 2(2)[OF False] 2(3) show ?thesis by simp
  qed
qed

lemma dropWhile_app_ex: "\<exists>x \<in> set xs. \<not> P x \<Longrightarrow> dropWhile P (xs @ ys) = dropWhile P xs @ ys"
  by (induction xs) auto

lemma takeWhile_app_ex: "\<exists>x \<in> set xs. \<not> P x \<Longrightarrow> takeWhile P (xs @ ys) = takeWhile P xs"
  by (induction xs) auto

lemma wordsOf_trailing: "\<forall>x \<in> set sp. isSpace x \<Longrightarrow> wordsOf (s @ sp) = wordsOf s"
proof (induction s arbitrary: sp rule: wordsOf.induct)
  case (1 s)
  show ?case
  proof (cases "dropWhile isSpace s")
    case Nil
    then have all: "\<forall>x \<in> set s. isSpace x" by (simp add: dropWhile_eq_Nil_conv)
    with 1(2) have e: "dropWhile isSpace (s @ sp) = []" by (simp add: dropWhile_eq_Nil_conv)
    have "wordsOf (s @ sp) = []" by (subst wordsOf.simps) (simp only: e list.case)
    moreover have "wordsOf s = []" by (subst wordsOf.simps) (simp only: Nil list.case)
    ultimately show ?thesis by simp
  next
    case (Cons c cs)
    then have ex: "\<exists>x \<in> set s. \<not> isSpace x" 
      by (metis dropWhile_eq_Nil_conv list.distinct(1))
    then have dw: "dropWhile isSpace (s @ sp) = c # (cs @ sp)"
      using Cons by (simp add: dropWhile_app_ex)
    from Cons have c: "\<not> isSpace c" using hd_dropWhile[of isSpace s] by auto
    let ?N = "\<lambda>x. \<not> isSpace x"
    have sp0: "sp = [] \<or> \<not> ?N (hd sp)" using 1(2) by (cases sp) auto
    have tw: "takeWhile ?N (cs @ sp) = takeWhile ?N cs"
    proof (cases "\<forall>x \<in> set cs. ?N x")
      case True
      from takeWhile_run[OF True sp0] True show ?thesis by (simp add: takeWhile_eq_all_conv[THEN iffD2])
    next
      case False
      then show ?thesis by (simp add: takeWhile_app_ex)
    qed
    have dr: "\<exists>sp'. (\<forall>x \<in> set sp'. isSpace x) \<and>
       dropWhile ?N (cs @ sp) = dropWhile ?N cs @ sp'"
    proof (cases "\<forall>x \<in> set cs. ?N x")
      case True
      then have "dropWhile ?N cs = []" by (simp add: dropWhile_eq_Nil_conv)
      with takeWhile_run[OF True sp0] 1(2) show ?thesis by auto
    next
      case False
      then have "dropWhile ?N (cs @ sp) = dropWhile ?N cs @ sp" by (simp add: dropWhile_app_ex)
      with 1(2) show ?thesis by blast
    qed
    then obtain sp' where sp': "\<forall>x \<in> set sp'. isSpace x"
      and dr': "dropWhile ?N (cs @ sp) = dropWhile ?N cs @ sp'" by blast
    from 1(1)[OF Cons sp'] have ih: "wordsOf (dropWhile ?N cs @ sp') = wordsOf (dropWhile ?N cs)" .
    have "wordsOf (s @ sp) = (c # takeWhile ?N (cs @ sp)) # wordsOf (dropWhile ?N (cs @ sp))"
      using c by (subst wordsOf.simps) (simp add: dw)
    also have "\<dots> = (c # takeWhile ?N cs) # wordsOf (dropWhile ?N cs)"
      by (simp add: tw dr' ih)
    also have "\<dots> = wordsOf s" using c Cons by (subst (2) wordsOf.simps) simp
    finally show ?thesis .
  qed
qed

lemma wordsOf_trim: "wordsOf (trim s) = wordsOf s"
proof -
  let ?y = "dropWhile isSpace s"
  have "rev (takeWhile isSpace (rev ?y) @ dropWhile isSpace (rev ?y)) = rev (rev ?y)"
    by (simp only: takeWhile_dropWhile_id)
  then have y: "?y = trim s @ rev (takeWhile isSpace (rev ?y))"
    by (simp only: rev_append rev_rev_ident trim_def)
  have "\<forall>x \<in> set (rev (takeWhile isSpace (rev ?y))). isSpace x"
    by (auto dest: set_takeWhileD)
  from wordsOf_trailing[OF this, of "trim s"] y have "wordsOf ?y = wordsOf (trim s)" by simp
  then show ?thesis by (simp add: wordsOf_dropWhile)
qed

lemma tokens_eq: "filter (\<lambda>t. length t > 0) (splitWhitespace [] (trim s)) = wordsOf s"
  using split_words[of "[]" "trim s"] by (simp add: wordsOf_trim)

text \<open>Evaluating the classifier on a given line.\<close>

lemma upperTag_bracket: "upperTag c = cu CHR ''['' \<longleftrightarrow> c = cu CHR ''[''"
  by (auto simp: upperTag_def eval_strings)

lemma matchTag_other: "c \<noteq> cu CHR ''['' \<Longrightarrow> matchTag (c # cs) = None"
proof -
  assume c: "c \<noteq> cu CHR ''[''"
  have "\<not> startsWithIgnoreCase (bracketed t) (c # cs)" for t
    using c upperTag_bracket[of c] upperTag_bracket[of "cu CHR ''[''"]
    by (auto simp: startsWithIgnoreCase_def bracketed_def)
  then show ?thesis by (auto simp: matchTag_def find_None_iff)
qed

lemma removeSectionTags_plain: "cu CHR ''['' \<notin> set s \<Longrightarrow> removeSectionTags s = s"
  by (induction s) (simp_all add: matchTag_other)

lemma removeSectionTags_step: "c \<noteq> cu CHR ''['' \<Longrightarrow> removeSectionTags (c # cs) = c # removeSectionTags cs"
  by (simp add: matchTag_other)

lemma removeSectionTags_bracket:
  "c = cu CHR ''['' \<Longrightarrow>
   removeSectionTags (c # cs) =
     (case matchTag (c # cs) of
        Some t \<Rightarrow> removeSectionTags (drop (length t) (c # cs))
      | None \<Rightarrow> c # removeSectionTags cs)"
  by (simp only: removeSectionTags.simps)

lemmas eval_tags = removeSectionTags.simps(1) removeSectionTags_step removeSectionTags_bracket
  matchTag_def startsWithIgnoreCase_def sectionTags_def bracketed_def upperTag_def eval_strings

lemmas eval_tokens = replaceBars_def isBarSeparator_def trim_def isSpace_def
  splitWhitespace.simps eval_strings

lemma tokens_Dm_G_C:
  "replaceBars (removeSectionTags (js ''Dm G C'')) = js ''Dm G C'' \<and>
   filter (\<lambda>t. length t > 0) (splitWhitespace [] (trim (js ''Dm G C''))) = [js ''Dm'', js ''G'', js ''C'']"
  by (simp add: eval_tags eval_tokens del: removeSectionTags.simps(2))

lemma chords_Dm_G_C: "isChordToken (js ''Dm'') \<and> isChordToken (js ''G'') \<and> isChordToken (js ''C'')"
  by (simp add: eval_chord del: lit.simps)

lemma ex1: "isChordOnlyLine (js ''Dm G C'')"
  unfolding isChordOnlyLine_def using tokens_Dm_G_C chords_Dm_G_C
  by (simp add: Let_def) (simp add: eval_strings)

lemma tokens_Louvado:
  "replaceBars (removeSectionTags (js ''Louvado seja o Senhor'')) = js ''Louvado seja o Senhor'' \<and>
   filter (\<lambda>t. length t > 0) (splitWhitespace [] (trim (js ''Louvado seja o Senhor''))) =
     [js ''Louvado'', js ''seja'', js ''o'', js ''Senhor'']"
  by (simp add: eval_tags eval_tokens del: removeSectionTags.simps(2))

lemma chords_Louvado:
  "\<not> isChordToken (js ''Louvado'') \<and> \<not> isChordToken (js ''seja'') \<and> \<not> isChordToken (js ''o'') \<and>
   \<not> isChordToken (js ''Senhor'')"
  by (simp add: eval_chord del: lit.simps)

lemma ex2: "\<not> isChordOnlyLine (js ''Louvado seja o Senhor'')"
  unfolding isChordOnlyLine_def using tokens_Louvado chords_Louvado
  by (simp add: Let_def)

lemma residual_Hello:
  "replaceBars (removeSectionTags (js ''[G]Hello [D]world'')) = js ''[G]Hello [D]world''"
  by (simp add: eval_tags eval_tokens del: removeSectionTags.simps(2))

lemma ex3: "\<not> isChordOnlyLine (js ''[G]Hello [D]world'')"
  unfolding isChordOnlyLine_def residual_Hello by (simp add: Let_def eval_strings)

lemma isChordOnlyLine_eq:
  "isChordOnlyLine line =
     (let residual = replaceBars (removeSectionTags line);
          tokens = wordsOf residual;
          chordCount = length (filter isChordToken tokens)
      in \<not> (cu CHR ''['' \<in> set residual \<and> cu CHR '']'' \<in> set residual) \<and>
         1 \<le> length tokens \<and> 1 \<le> chordCount \<and> length tokens \<le> 2 * chordCount)"
  unfolding isChordOnlyLine_def tokens_eq by (auto simp: Let_def Suc_le_eq)

lemma residual_cex: "replaceBars (removeSectionTags (js ''][ C'')) = js ''][ C''"
  by (simp add: eval_tags eval_tokens del: removeSectionTags.simps(2))

lemma words_cex: "wordsOf (js ''][ C'') = [js '']['', js ''C'']"
  unfolding tokens_eq[symmetric] by (simp add: eval_tokens)

lemma chords_cex: "\<not> isChordToken (js '']['') \<and> isChordToken (js ''C'')"
  by (simp add: eval_chord del: lit.simps)

lemma code_cex: "\<not> isChordOnlyLine (js ''][ C'')"
  unfolding isChordOnlyLine_def residual_cex by (simp add: Let_def eval_strings)

lemma spec_cex: "specChordOnlyLine (js ''][ C'')"
  unfolding specChordOnlyLine_def Let_def residual_cex words_cex using chords_cex
  by (simp add: hasBracketPair_def) (simp add: eval_strings)

text \<open>
  C6, as the claim states it, fails. In the line \<open>][ C\<close> no opening bracket is followed by a
  closing one, so the text has no bracket pair; it has two tokens, of which \<open>C\<close> is a chord,
  and all the conditions of the claim hold. \<open>isChordOnlyLine\<close> returns false, since it only
  asks whether the text has an opening bracket and has a closing bracket, in any order.
\<close>

theorem C6_counterexample: "\<not> (\<forall>line. isChordOnlyLine line = specChordOnlyLine line)"
  using code_cex spec_cex by blast

text \<open>
  C6, amended. For every line, \<open>isChordOnlyLine\<close> is true if and only if the residual text
  (the section tags removed, the bar separators replaced by spaces) does not contain both an
  opening and a closing bracket, in whatever order, has at least one token, and the tokens
  that are chords of the grammar are at least one and at least half of the tokens. The
  tokens are the maximal runs of characters that are not white space. The three examples
  of the claim hold: \<open>Dm G C\<close> is a chord line, \<open>Louvado seja o Senhor\<close> and
  \<open>[G]Hello [D]world\<close> are not.
\<close>

theorem C6_classifier:
  "isChordOnlyLine line =
     (let residual = replaceBars (removeSectionTags line);
          tokens = wordsOf residual;
          chordCount = length (filter isChordToken tokens)
      in \<not> (cu CHR ''['' \<in> set residual \<and> cu CHR '']'' \<in> set residual) \<and>
         1 \<le> length tokens \<and> 1 \<le> chordCount \<and> length tokens \<le> 2 * chordCount) \<and>
   isChordOnlyLine (js ''Dm G C'') \<and>
   \<not> isChordOnlyLine (js ''Louvado seja o Senhor'') \<and>
   \<not> isChordOnlyLine (js ''[G]Hello [D]world'')"
  using isChordOnlyLine_eq[of line] ex1 ex2 ex3 by simp

section \<open>Properties of the stacked converter\<close>





















lemma hd_suffix: "xs \<noteq> [] \<Longrightarrow> \<exists>p. s = p @ hd xs" if "\<And>t. t \<in> set xs \<Longrightarrow> \<exists>p. s = p @ t"
  using that by (cases xs) auto










































end
